theory Spec2Isabelle
  imports Complex_Main
begin

section \<open>Values exchanged with the upstream API\<close>

text \<open>
  The program of \<^verbatim>\<open>update_prices.py\<close> handles the decoded JSON of the upstream API as
  untyped Python values. A decoded value is \<^verbatim>\<open>None\<close>, a bool, an int, a float, a string,
  a list or a dict with string keys. A finite float is carried as the rational it denotes;
  the three non-finite floats that Python's decoder accepts are separate constructors.
  A dict is the list of its items in insertion order; Python's decoder keeps every key
  once, so the lists that stand for decoded dicts have distinct keys.
\<close>

datatype pyfloat = Finite rat | PosInf | NegInf | NaN

datatype json =
    JNull
  | JBool bool
  | JInt int
  | JFloat pyfloat
  | JStr string
  | JArr "json list"
  | JObj "(string \<times> json) list"

text \<open>Python's truth value of a decoded value (\<^verbatim>\<open>bool(x)\<close>, \<^verbatim>\<open>if x\<close>, \<^verbatim>\<open>not x\<close>).\<close>

fun truthy :: "json \<Rightarrow> bool" where
  "truthy JNull = False"
| "truthy (JBool b) = b"
| "truthy (JInt i) = (i \<noteq> 0)"
| "truthy (JFloat f) = (f \<noteq> Finite 0)"
| "truthy (JStr s) = (s \<noteq> [])"
| "truthy (JArr xs) = (xs \<noteq> [])"
| "truthy (JObj kvs) = (kvs \<noteq> [])"

text \<open>\<^verbatim>\<open>x or y\<close> on values.\<close>

definition py_or :: "json \<Rightarrow> json \<Rightarrow> json" where
  "py_or x y = (if truthy x then x else y)"

text \<open>\<^verbatim>\<open>d.get(k)\<close> on a dict: the value, \<^verbatim>\<open>None\<close> when the key is absent.\<close>

definition dict_get :: "(string \<times> json) list \<Rightarrow> string \<Rightarrow> json" where
  "dict_get kvs k = (case map_of kvs k of None \<Rightarrow> JNull | Some v \<Rightarrow> v)"

text \<open>\<^verbatim>\<open>d.get(k, default)\<close> on a dict.\<close>

definition dict_get_default :: "(string \<times> json) list \<Rightarrow> string \<Rightarrow> json \<Rightarrow> json" where
  "dict_get_default kvs k d = (case map_of kvs k of None \<Rightarrow> d | Some v \<Rightarrow> v)"

text \<open>The exceptions that reach the top of \<^verbatim>\<open>main\<close> and end the run.\<close>

datatype error =
    AttributeError   \<comment> \<open>\<^verbatim>\<open>.get\<close> or \<^verbatim>\<open>.items\<close> on a value that is not a dict\<close>
  | TypeError        \<comment> \<open>iteration over a value that is not iterable\<close>
  | ValueError       \<comment> \<open>\<^verbatim>\<open>time.sleep\<close> of a negative length\<close>
  | DbError          \<comment> \<open>the storage client raised in \<^verbatim>\<open>execute()\<close>\<close>

section \<open>The row projector\<close>

record price_row =
  card_id :: json
  variant :: string
  date :: string
  market :: json
  low :: json
  high :: json

text \<open>
  The loop of \<^verbatim>\<open>rows_from_card\<close> over \<^verbatim>\<open>prices.items()\<close>: one row for each item whose
  value is a dict, in the order of the items. \<^verbatim>\<open>crd\<close> is the card's dict, \<^verbatim>\<open>today\<close> the
  run date \<^verbatim>\<open>TODAY\<close>.
\<close>

fun rows_loop :: "string \<Rightarrow> (string \<times> json) list \<Rightarrow> (string \<times> json) list \<Rightarrow> price_row list" where
  "rows_loop today crd [] = []"
| "rows_loop today crd ((v, pdata) # rest) =
     (case pdata of
        JObj pd \<Rightarrow>
          \<lparr>card_id = dict_get crd ''id'', variant = v, date = today,
           market = dict_get pd ''market'', low = dict_get pd ''low'',
           high = dict_get pd ''high''\<rparr> # rows_loop today crd rest
      | _ \<Rightarrow> rows_loop today crd rest)"

text \<open>
  \<^verbatim>\<open>rows_from_card\<close>. The three method calls \<^verbatim>\<open>card.get\<close>, \<^verbatim>\<open>tcg.get\<close> and
  \<^verbatim>\<open>prices.items\<close> raise \<^verbatim>\<open>AttributeError\<close> on a receiver that is not a dict.
\<close>

fun rows_from_card :: "string \<Rightarrow> json \<Rightarrow> error + price_row list" where
  "rows_from_card today (JObj crd) =
     (case py_or (dict_get crd ''tcgplayer'') (JObj []) of
        JObj tcg \<Rightarrow>
          (case py_or (dict_get tcg ''prices'') (JObj []) of
             JObj prices \<Rightarrow> Inr (rows_loop today crd prices)
           | _ \<Rightarrow> Inl AttributeError)
      | _ \<Rightarrow> Inl AttributeError)"
| "rows_from_card today _ = Inl AttributeError"

section \<open>The environment of a run\<close>

text \<open>
  The module-level configuration, the run date, the upstream API and the storage backend
  are the environment of a run. Every call that leaves the process (an HTTP request, an
  \<^verbatim>\<open>execute()\<close> of the storage client) is numbered by the count of such calls made before
  it; the environment answers the \<open>n\<close>-th call as a function of \<open>n\<close> and of the request,
  so an upstream may answer the same request differently at different moments.
  \<^verbatim>\<open>REQ_TIMEOUT\<close> only parameterises the HTTP client and is part of how the environment
  answers. Console output is not modelled.
\<close>

datatype request =
    GetSet string              \<comment> \<open>\<^verbatim>\<open>GET /v2/sets/{id}\<close>\<close>
  | SearchSets string          \<comment> \<open>\<^verbatim>\<open>GET /v2/sets?q=id:{id}&select=id&pageSize=1\<close>\<close>
  | GetCards string int int    \<comment> \<open>\<^verbatim>\<open>GET /v2/cards\<close> for a set id, a page and a page size\<close>

text \<open>
  What \<^verbatim>\<open>SESSION.get\<close> does: it returns a response with a status code and a body, or raises
  \<^verbatim>\<open>requests.Timeout\<close>, or raises another exception. The body is what \<^verbatim>\<open>r.json()\<close>
  returns, \<open>None\<close> when \<^verbatim>\<open>r.json()\<close> raises.
\<close>

datatype http_result = Response int "json option" | Timeout | RequestError

datatype db_op =
    SelectSets
  | SelectProgress string
  | UpsertProgress string "int option" "bool option"
  | UpsertPrices "price_row list"
  | CountPrices
  | SelectAllProgress

record env =
  PAGE_SIZES_TRY :: "int list"
  BETWEEN_PAGES_DELAY :: rat
  POST_BATCH_DELAY :: rat
  MAX_RETRIES :: int
  TODAY :: string
  sets_table :: "string list"
  http :: "nat \<Rightarrow> request \<Rightarrow> http_result"
  db_raises :: "nat \<Rightarrow> db_op \<Rightarrow> bool"

section \<open>The state of a run\<close>

text \<open>
  A row of the table \<^verbatim>\<open>price_run_progress\<close> for the run date; a column may hold NULL.
\<close>

record progress =
  last_page_done :: "int option"
  is_done :: "bool option"

text \<open>
  What a run does to the outside, in order: the sleeps, the HTTP requests and the storage
  calls, each storage call with whether it raised.
\<close>

datatype event = Sleep rat | HttpGet request | DbCall db_op bool

text \<open>
  The state: the count of outside calls so far, the events so far, the rows of
  \<^verbatim>\<open>price_run_progress\<close> of the run date by set id, the table \<^verbatim>\<open>card_prices\<close> by its
  conflict key (card id, variant, date), and the local variables of \<^verbatim>\<open>main\<close>.
\<close>

record state =
  tick :: nat
  trace :: "event list"
  price_run_progress :: "string \<rightharpoonup> progress"
  card_prices :: "(json \<times> string \<times> string) \<rightharpoonup> price_row"
  total_rows :: int
  total_cards_seen :: int
  sets_done :: "string list"
  sets_skipped :: "string list"
  sets_retry :: "string list"

definition init_state ::
  "(string \<rightharpoonup> progress) \<Rightarrow> ((json \<times> string \<times> string) \<rightharpoonup> price_row) \<Rightarrow> state" where
  "init_state ledger prices =
     \<lparr>tick = 0, trace = [], price_run_progress = ledger, card_prices = prices,
      total_rows = 0, total_cards_seen = 0, sets_done = [], sets_skipped = [],
      sets_retry = []\<rparr>"

text \<open>\<^verbatim>\<open>time.sleep(d)\<close> for a length that is not negative.\<close>

definition sleep :: "rat \<Rightarrow> state \<Rightarrow> state" where
  "sleep d s = s\<lparr>trace := trace s @ [Sleep d]\<rparr>"

text \<open>\<^verbatim>\<open>SESSION.get\<close>: the environment's answer to this call, and the call recorded.\<close>

definition http_get :: "env \<Rightarrow> request \<Rightarrow> state \<Rightarrow> http_result \<times> state" where
  "http_get e rq s =
     (http e (tick s) rq, s\<lparr>tick := tick s + 1, trace := trace s @ [HttpGet rq]\<rparr>)"

text \<open>
  \<^verbatim>\<open>execute()\<close> of the storage client: whether it raised, and the call recorded. The
  effect of a call that did not raise on the tables is written by its caller; a call that
  raised leaves the tables as they were.
\<close>

definition db_execute :: "env \<Rightarrow> db_op \<Rightarrow> state \<Rightarrow> bool \<times> state" where
  "db_execute e opr s =
     (db_raises e (tick s) opr,
      s\<lparr>tick := tick s + 1, trace := trace s @ [DbCall opr (db_raises e (tick s) opr)]\<rparr>)"

section \<open>The existence resolver\<close>

text \<open>
  The first loop of \<^verbatim>\<open>set_exists_in_api\<close> over \<^verbatim>\<open>range(1, 4)\<close>. The result is \<open>Some True\<close>
  when the function returns \<^verbatim>\<open>True\<close> from inside the loop, \<open>None\<close> when the loop is left
  (by \<^verbatim>\<open>break\<close> or at its end) and the search follows.
\<close>

fun direct_lookup :: "env \<Rightarrow> string \<Rightarrow> int list \<Rightarrow> state \<Rightarrow> bool option \<times> state" where
  "direct_lookup e set_id [] s = (None, s)"
| "direct_lookup e set_id (attempt # rest) s =
     (case http_get e (GetSet set_id) s of
        (Response code body, s1) \<Rightarrow>
          if code = 200 then (Some True, s1)
          else if code = 404 then (None, s1)
          else direct_lookup e set_id rest (sleep (1 / 2 * of_int attempt) s1)
      | (_, s1) \<Rightarrow> direct_lookup e set_id rest (sleep (1 / 2 * of_int attempt) s1))"

text \<open>
  The value of \<^verbatim>\<open>bool((r2.json() or {}).get("data") or [])\<close> inside the \<^verbatim>\<open>try\<close>, for the
  body of a response: every exception (\<^verbatim>\<open>r2.json()\<close> raising, \<^verbatim>\<open>.get\<close> on a value that is
  not a dict) is caught and gives \<^verbatim>\<open>True\<close>.
\<close>

definition search_found :: "json option \<Rightarrow> bool" where
  "search_found body =
     (case body of
        None \<Rightarrow> True
      | Some j \<Rightarrow>
          (case py_or j (JObj []) of
             JObj kvs \<Rightarrow> truthy (py_or (dict_get kvs ''data'') (JArr []))
           | _ \<Rightarrow> True))"

definition set_exists_in_api :: "env \<Rightarrow> string \<Rightarrow> state \<Rightarrow> bool \<times> state" where
  "set_exists_in_api e set_id s =
     (case direct_lookup e set_id [1..3] s of
        (Some b, s1) \<Rightarrow> (b, s1)
      | (None, s1) \<Rightarrow>
          (case http_get e (SearchSets set_id) s1 of
             (Response code body, s2) \<Rightarrow>
               if code = 200 then (search_found body, s2) else (True, s2)
           | (_, s2) \<Rightarrow> (True, s2)))"

section \<open>The page fetcher\<close>

datatype status = StatusOk | StatusRetry | StatusSkip

text \<open>
  The inner loop of \<^verbatim>\<open>fetch_cards_page\<close> over \<^verbatim>\<open>range(1, MAX_RETRIES + 1)\<close> for one page
  size. The result is \<open>Some\<close> of what the function returns from inside the loop, \<open>None\<close>
  when the attempts are used up and the next page size follows. On status 200,
  \<^verbatim>\<open>r.json().get("data", [])\<close> raises when the body does not decode or is not a dict; the
  handler \<^verbatim>\<open>except Exception\<close> then sleeps and the loop goes on.
\<close>

fun fetch_attempts ::
  "env \<Rightarrow> string \<Rightarrow> int \<Rightarrow> int \<Rightarrow> int list \<Rightarrow> state \<Rightarrow> (json \<times> status) option \<times> state" where
  "fetch_attempts e set_id page psize [] s = (None, s)"
| "fetch_attempts e set_id page psize (attempt # rest) s =
     (case http_get e (GetCards set_id page psize) s of
        (Response code body, s1) \<Rightarrow>
          if code = 200 then
            (case body of
               Some (JObj kvs) \<Rightarrow> (Some (dict_get_default kvs ''data'' (JArr []), StatusOk), s1)
             | _ \<Rightarrow> fetch_attempts e set_id page psize rest (sleep (2 ^ nat attempt) s1))
          else if code \<in> set [429, 500, 502, 503, 504] then
            fetch_attempts e set_id page psize rest (sleep (2 ^ nat attempt) s1)
          else if code = 404 then
            (case set_exists_in_api e set_id s1 of
               (ex, s2) \<Rightarrow>
                 if \<not> ex then (Some (JArr [], StatusSkip), s2)
                 else (Some (JArr [], StatusRetry), s2))
          else (Some (JArr [], StatusRetry), s1)
      | (Timeout, s1) \<Rightarrow> fetch_attempts e set_id page psize rest (sleep (2 ^ nat attempt) s1)
      | (RequestError, s1) \<Rightarrow>
          fetch_attempts e set_id page psize rest (sleep (2 ^ nat attempt) s1))"

text \<open>The outer loop over \<^verbatim>\<open>PAGE_SIZES_TRY\<close>, and the \<^verbatim>\<open>return [], "retry"\<close> after it.\<close>

fun fetch_sizes ::
  "env \<Rightarrow> string \<Rightarrow> int \<Rightarrow> int list \<Rightarrow> state \<Rightarrow> (json \<times> status) \<times> state" where
  "fetch_sizes e set_id page [] s = ((JArr [], StatusRetry), s)"
| "fetch_sizes e set_id page (psize # rest) s =
     (case fetch_attempts e set_id page psize [1..MAX_RETRIES e] s of
        (Some res, s1) \<Rightarrow> (res, s1)
      | (None, s1) \<Rightarrow> fetch_sizes e set_id page rest s1)"

definition fetch_cards_page :: "env \<Rightarrow> string \<Rightarrow> int \<Rightarrow> state \<Rightarrow> (json \<times> status) \<times> state" where
  "fetch_cards_page e set_id page s = fetch_sizes e set_id page (PAGE_SIZES_TRY e) s"

section \<open>The progress ledger\<close>

text \<open>
  \<^verbatim>\<open>get_progress\<close>: the row of the set for the run date, created with the defaults when
  there is none. An exception of the storage client is not caught.
\<close>

definition get_progress :: "env \<Rightarrow> string \<Rightarrow> state \<Rightarrow> (error + progress) \<times> state" where
  "get_progress e set_id s =
     (case db_execute e (SelectProgress set_id) s of
        (raised, s1) \<Rightarrow>
          if raised then (Inl DbError, s1)
          else
            (case price_run_progress s1 set_id of
               Some row \<Rightarrow> (Inr \<lparr>last_page_done = last_page_done row, is_done = is_done row\<rparr>, s1)
             | None \<Rightarrow>
                 (case db_execute e (UpsertProgress set_id (Some 0) (Some False)) s1 of
                    (raised2, s2) \<Rightarrow>
                      if raised2 then (Inl DbError, s2)
                      else
                        (Inr \<lparr>last_page_done = Some 0, is_done = Some False\<rparr>,
                         s2\<lparr>price_run_progress := (price_run_progress s2)
                              (set_id \<mapsto> \<lparr>last_page_done = Some 0, is_done = Some False\<rparr>)\<rparr>))))"

text \<open>
  The row an upsert of a patch leaves: a field of the patch replaces the column, a column
  the patch does not name keeps its value. A new row's column that the patch does not name
  is NULL here; \<^verbatim>\<open>main\<close> names both fields in every patch.
\<close>

definition patch_row :: "progress option \<Rightarrow> int option \<Rightarrow> bool option \<Rightarrow> progress" where
  "patch_row old page dn =
     \<lparr>last_page_done =
        (case page of Some p \<Rightarrow> Some p
         | None \<Rightarrow> (case old of Some row \<Rightarrow> last_page_done row | None \<Rightarrow> None)),
      is_done =
        (case dn of Some d \<Rightarrow> Some d
         | None \<Rightarrow> (case old of Some row \<Rightarrow> is_done row | None \<Rightarrow> None))\<rparr>"

text \<open>\<^verbatim>\<open>update_progress\<close>; an exception of the storage client is not caught.\<close>

definition update_progress ::
  "env \<Rightarrow> string \<Rightarrow> int option \<Rightarrow> bool option \<Rightarrow> state \<Rightarrow> error option \<times> state" where
  "update_progress e set_id page dn s =
     (case db_execute e (UpsertProgress set_id page dn) s of
        (raised, s1) \<Rightarrow>
          if raised then (Some DbError, s1)
          else
            (None,
             s1\<lparr>price_run_progress := (price_run_progress s1)
                  (set_id \<mapsto> patch_row (price_run_progress s1 set_id) page dn)\<rparr>))"

section \<open>The upsert sink\<close>

text \<open>The merge of a batch into \<^verbatim>\<open>card_prices\<close> on the key (card id, variant, date).\<close>

fun store_rows ::
  "price_row list \<Rightarrow> ((json \<times> string \<times> string) \<rightharpoonup> price_row) \<Rightarrow>
   ((json \<times> string \<times> string) \<rightharpoonup> price_row)" where
  "store_rows [] tbl = tbl"
| "store_rows (r # rs) tbl = store_rows rs (tbl((card_id r, variant r, date r) \<mapsto> r))"

text \<open>
  The loop of \<^verbatim>\<open>upsert_prices\<close> over \<^verbatim>\<open>range(1, MAX_RETRIES + 1)\<close>. The \<^verbatim>\<open>try\<close> block
  holds the upsert and \<^verbatim>\<open>time.sleep(POST_BATCH_DELAY)\<close>, which raises on a negative
  length after the upsert has been stored; the handler gives up without raising at the
  attempt \<^verbatim>\<open>MAX_RETRIES\<close> and sleeps \<^verbatim>\<open>2 ** attempt\<close> before the next attempt otherwise.
\<close>

fun upsert_attempts :: "env \<Rightarrow> price_row list \<Rightarrow> int list \<Rightarrow> state \<Rightarrow> state" where
  "upsert_attempts e rows [] s = s"
| "upsert_attempts e rows (attempt # rest) s =
     (case db_execute e (UpsertPrices rows) s of
        (raised, s1) \<Rightarrow>
          (let s2 = (if raised then s1
                     else s1\<lparr>card_prices := store_rows rows (card_prices s1)\<rparr>)
           in if \<not> raised \<and> 0 \<le> POST_BATCH_DELAY e then sleep (POST_BATCH_DELAY e) s2
              else if attempt = MAX_RETRIES e then s2
              else upsert_attempts e rows rest (sleep (2 ^ nat attempt) s2)))"

definition upsert_prices :: "env \<Rightarrow> price_row list \<Rightarrow> state \<Rightarrow> state" where
  "upsert_prices e rows s =
     (if rows = [] then s else upsert_attempts e rows [1..MAX_RETRIES e] s)"

section \<open>The run orchestrator\<close>

text \<open>
  \<^verbatim>\<open>for card in cards_page\<close> on a value: a list gives its elements, a dict its keys, a
  string its characters; any other value is not iterable.
\<close>

fun py_iter :: "json \<Rightarrow> error + json list" where
  "py_iter (JArr xs) = Inr xs"
| "py_iter (JObj kvs) = Inr (map (\<lambda>kv. JStr (fst kv)) kvs)"
| "py_iter (JStr cs) = Inr (map (\<lambda>c. JStr [c]) cs)"
| "py_iter _ = Inl TypeError"

text \<open>The loop that builds \<^verbatim>\<open>batch_rows\<close> and counts the cards seen.\<close>

fun cards_loop ::
  "string \<Rightarrow> json list \<Rightarrow> price_row list \<Rightarrow> state \<Rightarrow> (error + price_row list) \<times> state" where
  "cards_loop today [] batch_rows s = (Inr batch_rows, s)"
| "cards_loop today (c # cs) batch_rows s =
     (let s1 = s\<lparr>total_cards_seen := total_cards_seen s + 1\<rparr>
      in case rows_from_card today c of
           Inl err \<Rightarrow> (Inl err, s1)
         | Inr rows \<Rightarrow> cards_loop today cs (batch_rows @ rows) s1)"

definition build_batch :: "env \<Rightarrow> json \<Rightarrow> state \<Rightarrow> (error + price_row list) \<times> state" where
  "build_batch e cards_page s =
     (case py_iter cards_page of
        Inl err \<Rightarrow> (Inl err, s)
      | Inr cs \<Rightarrow> cards_loop (TODAY e) cs [] s)"

text \<open>
  One pass through the body of the \<^verbatim>\<open>while True\<close> loop of \<^verbatim>\<open>main\<close> for a set and a page.
  \<open>Inl\<close> is the end of the loop: by \<^verbatim>\<open>break\<close> (no error) or by an exception that nothing
  catches (the error). \<open>Inr\<close> is the state at the end of the body, from which the loop
  goes on with the next page.
\<close>

definition page_step ::
  "env \<Rightarrow> string \<Rightarrow> int \<Rightarrow> state \<Rightarrow> (error option \<times> state) + state" where
  "page_step e set_id page s =
     (case fetch_cards_page e set_id page s of
        ((cards_page, st), s1) \<Rightarrow>
          if st = StatusSkip then
            Inl (update_progress e set_id (Some 0) (Some True)
                   (s1\<lparr>sets_skipped := sets_skipped s1 @ [set_id]\<rparr>))
          else if st = StatusRetry then
            Inl (None, s1\<lparr>sets_retry := sets_retry s1 @ [set_id]\<rparr>)
          else if \<not> truthy cards_page then
            Inl (update_progress e set_id (Some (page - 1)) (Some True)
                   (s1\<lparr>sets_done := sets_done s1 @ [set_id]\<rparr>))
          else
            (case build_batch e cards_page s1 of
               (Inl err, s2) \<Rightarrow> Inl (Some err, s2)
             | (Inr batch_rows, s2) \<Rightarrow>
                 (let s3 = upsert_prices e batch_rows s2;
                      s4 = s3\<lparr>total_rows := total_rows s3 + int (length batch_rows)\<rparr>
                  in case update_progress e set_id (Some page) (Some False) s4 of
                       (Some err, s5) \<Rightarrow> Inl (Some err, s5)
                     | (None, s5) \<Rightarrow>
                         if BETWEEN_PAGES_DELAY e < 0 then Inl (Some ValueError, s5)
                         else Inr (sleep (BETWEEN_PAGES_DELAY e) s5))))"

text \<open>
  The \<^verbatim>\<open>while True\<close> loop. It need not end (an upstream can answer every page with
  cards), so it is a partial function: \<open>None\<close> is a loop that never ends.
\<close>

partial_function (option) page_loop ::
  "env \<Rightarrow> string \<Rightarrow> int \<Rightarrow> state \<Rightarrow> (error option \<times> state) option" where
  "page_loop e set_id page s =
     (case page_step e set_id page s of
        Inl res \<Rightarrow> Some res
      | Inr s' \<Rightarrow> page_loop e set_id (page + 1) s')"

declare page_loop.simps [code]

text \<open>The page at which a set is resumed: \<^verbatim>\<open>(prog["last_page_done"] or 0) + 1\<close>.\<close>

definition resume_page :: "progress \<Rightarrow> int" where
  "resume_page prog =
     (case last_page_done prog of
        None \<Rightarrow> 0
      | Some n \<Rightarrow> if n \<noteq> 0 then n else 0) + 1"

text \<open>The loop \<^verbatim>\<open>for set_id in set_ids\<close>.\<close>

fun sets_loop :: "env \<Rightarrow> string list \<Rightarrow> state \<Rightarrow> (error option \<times> state) option" where
  "sets_loop e [] s = Some (None, s)"
| "sets_loop e (set_id # rest) s =
     (case get_progress e set_id s of
        (Inl err, s1) \<Rightarrow> Some (Some err, s1)
      | (Inr prog, s1) \<Rightarrow>
          if is_done prog = Some True then sets_loop e rest s1
          else
            (case page_loop e set_id (resume_page prog) s1 of
               None \<Rightarrow> None
             | Some (Some err, s2) \<Rightarrow> Some (Some err, s2)
             | Some (None, s2) \<Rightarrow> sets_loop e rest s2))"


section \<open>What the specification says of the projector\<close>




section \<open>What the specification says of the resolver\<close>


section \<open>What the specification says of the fetcher\<close>

text \<open>
  A transient failure of the listing call: a rate-limited or server-side error status, a
  timeout or another exception of the request, and a 200 whose body does not decode to a
  dict (the exception of \<^verbatim>\<open>r.json().get\<close> takes the same handler).
\<close>

definition transient :: "http_result \<Rightarrow> bool" where
  "transient r =
     (case r of
        Response code body \<Rightarrow>
          code \<in> set [429, 500, 502, 503, 504] \<or>
          (code = 200 \<and> (case body of Some (JObj kvs) \<Rightarrow> False | _ \<Rightarrow> True))
      | _ \<Rightarrow> True)"

section \<open>Frames\<close>

text \<open>
  Two states that differ at most in the count and the record of the outside calls and
  sleeps: the tables and the local variables of \<^verbatim>\<open>main\<close> are the same.
\<close>

definition same_store :: "state \<Rightarrow> state \<Rightarrow> bool" where
  "same_store s s' =
     (price_run_progress s' = price_run_progress s \<and> card_prices s' = card_prices s \<and>
      total_rows s' = total_rows s \<and> total_cards_seen s' = total_cards_seen s \<and>
      sets_done s' = sets_done s \<and> sets_skipped s' = sets_skipped s \<and>
      sets_retry s' = sets_retry s)"

section \<open>What the specification says of the sink\<close>


section \<open>Sample data\<close>

text \<open>
  A card with two variant entries: a quote with a market and a low value and no high
  value, and an entry that is not a quote object.
\<close>

definition sample_card :: "(string \<times> json) list" where
  "sample_card =
     [(''id'', JStr ''base1-1''),
      (''tcgplayer'', JObj [(''prices'',
          JObj [(''normal'', JObj [(''market'', JFloat (Finite (3 / 2))), (''low'', JInt 1)]),
                (''holofoil'', JStr ''n/a'')])])]"

text \<open>A setup with the defaults of the configuration, for a list of set ids.\<close>

definition run_env ::
  "string list \<Rightarrow> (nat \<Rightarrow> request \<Rightarrow> http_result) \<Rightarrow> (nat \<Rightarrow> db_op \<Rightarrow> bool) \<Rightarrow> env" where
  "run_env sets h d =
     \<lparr>PAGE_SIZES_TRY = [100, 50, 25], BETWEEN_PAGES_DELAY = 1, POST_BATCH_DELAY = 1,
      MAX_RETRIES = 4, TODAY = ''2024-01-01'', sets_table = sets, http = h, db_raises = d\<rparr>"

text \<open>A storage backend that never raises.\<close>

definition db_up :: "nat \<Rightarrow> db_op \<Rightarrow> bool" where
  "db_up n opr = False"




text \<open>The state of a run that finds both tables empty.\<close>

definition s0 :: state where
  "s0 = init_state Map.empty Map.empty"


text \<open>
  An upstream whose listing is rate-limited at page size 100 and answers with the given
  cards at every other page size.
\<close>

definition upstream_size_100_limited :: "json \<Rightarrow> nat \<Rightarrow> request \<Rightarrow> http_result" where
  "upstream_size_100_limited cards n rq =
     (case rq of
        GetCards set_id page psize \<Rightarrow>
          if psize = 100 then Response 429 None
          else Response 200 (Some (JObj [(''data'', cards)]))
      | _ \<Rightarrow> Response 404 None)"

text \<open>An upstream that answers every request with 429.\<close>

definition upstream_limited :: "nat \<Rightarrow> request \<Rightarrow> http_result" where
  "upstream_limited n rq = Response 429 None"




text \<open>An upstream that answers every request with 200 and an empty page.\<close>

definition upstream_empty_page :: "nat \<Rightarrow> request \<Rightarrow> http_result" where
  "upstream_empty_page n rq = Response 200 (Some (JObj [(''data'', JArr [])]))"

text \<open>
  A ledger of a run date on which the set \<^verbatim>\<open>base1\<close> is done after three pages and the
  set \<^verbatim>\<open>base2\<close> has two pages done.
\<close>

definition ledger_base1_done :: "string \<rightharpoonup> progress" where
  "ledger_base1_done =
     [''base1'' \<mapsto> \<lparr>last_page_done = Some 3, is_done = Some True\<rparr>,
      ''base2'' \<mapsto> \<lparr>last_page_done = Some 2, is_done = Some False\<rparr>]"




section \<open>Properties\<close>

subsection \<open>The row projector\<close>




subsection \<open>The existence resolver\<close>









subsection \<open>The page fetcher\<close>

lemma same_store_refl [simp]: "same_store s s"
  by (simp add: same_store_def)

lemma same_store_sleep [simp]: "same_store s (sleep d s1) = same_store s s1"
  by (simp add: same_store_def sleep_def)

lemma same_store_http_get [simp]: "same_store s (snd (http_get e rq s1)) = same_store s s1"
  by (simp add: same_store_def http_get_def)

lemma tick_sleep [simp]: "tick (sleep d s) = tick s"
  by (simp add: sleep_def)

lemma tick_http_get [simp]: "tick (snd (http_get e rq s)) = tick s + 1"
  by (simp add: http_get_def)

lemma fst_http_get [simp]: "fst (http_get e rq s) = http e (tick s) rq"
  by (simp add: http_get_def)

lemma direct_lookup_frame:
  "same_store sa s \<Longrightarrow> same_store sa (snd (direct_lookup e sid as s))"
proof (induction as arbitrary: s)
  case Nil
  then show ?case by simp
next
  case (Cons a as)
  obtain r s1 where h: "http_get e (GetSet sid) s = (r, s1)"
    by (cases "http_get e (GetSet sid) s")
  then have "same_store sa s1"
    using Cons.prems same_store_http_get [of sa e "GetSet sid" s] by simp
  then have "same_store sa (snd (direct_lookup e sid as (sleep (1 / 2 * of_int a) s1)))"
    using Cons.IH by simp
  with h \<open>same_store sa s1\<close> show ?case
    by (cases r) auto
qed

lemma set_exists_frame:
  "same_store sa s \<Longrightarrow> same_store sa (snd (set_exists_in_api e sid s))"
proof -
  assume a: "same_store sa s"
  obtain r s1 where d: "direct_lookup e sid [1..3] s = (r, s1)"
    by (cases "direct_lookup e sid [1..3] s")
  then have s1: "same_store sa s1"
    using direct_lookup_frame [OF a, of e sid "[1..3]"] by simp
  obtain r2 s2 where h: "http_get e (SearchSets sid) s1 = (r2, s2)"
    by (cases "http_get e (SearchSets sid) s1")
  then have "same_store sa s2"
    using s1 same_store_http_get [of sa e "SearchSets sid" s1] by simp
  with d h s1 show ?thesis
    by (cases r; cases r2) (auto simp: set_exists_in_api_def)
qed

lemma fetch_attempts_frame:
  "same_store sa s \<Longrightarrow> same_store sa (snd (fetch_attempts e sid page psize as s))"
proof (induction as arbitrary: s)
  case Nil
  then show ?case by simp
next
  case (Cons a as)
  obtain r s1 where h: "http_get e (GetCards sid page psize) s = (r, s1)"
    by (cases "http_get e (GetCards sid page psize) s")
  then have s1: "same_store sa s1"
    using Cons.prems same_store_http_get [of sa e "GetCards sid page psize" s] by simp
  then have ih: "same_store sa (snd (fetch_attempts e sid page psize as (sleep (2 ^ nat a) s1)))"
    using Cons.IH by simp
  have ex: "same_store sa (snd (set_exists_in_api e sid s1))"
    using s1 by (rule set_exists_frame)
  from h s1 ih ex show ?case
    by (cases r) (auto split: option.splits json.splits prod.splits)
qed

lemma fetch_sizes_frame:
  "same_store sa s \<Longrightarrow> same_store sa (snd (fetch_sizes e sid page sizes s))"
proof (induction sizes arbitrary: s)
  case Nil
  then show ?case by simp
next
  case (Cons p ps)
  obtain r s1 where h: "fetch_attempts e sid page p [1..MAX_RETRIES e] s = (r, s1)"
    by (cases "fetch_attempts e sid page p [1..MAX_RETRIES e] s")
  then have "same_store sa s1"
    using fetch_attempts_frame [OF Cons.prems, of e sid page p "[1..MAX_RETRIES e]"] by simp
  with h Cons.IH show ?case
    by (cases r) auto
qed

lemma fetch_cards_page_frame: "same_store s (snd (fetch_cards_page e sid page s))"
  unfolding fetch_cards_page_def by (rule fetch_sizes_frame) simp

lemma fetch_attempts_transient:
  "\<forall>i < length as. transient (http e (tick s + i) (GetCards sid page psize)) \<Longrightarrow>
   fst (fetch_attempts e sid page psize as s) = None \<and>
   tick (snd (fetch_attempts e sid page psize as s)) = tick s + length as"
proof (induction as arbitrary: s)
  case Nil
  then show ?case by simp
next
  case (Cons a as)
  let ?s1 = "snd (http_get e (GetCards sid page psize) s)"
  let ?s2 = "sleep (2 ^ nat a) ?s1"
  have t0: "transient (http e (tick s) (GetCards sid page psize))"
    using Cons.prems by force
  have "\<forall>i < length as. transient (http e (tick ?s2 + i) (GetCards sid page psize))"
  proof (intro allI impI)
    fix i assume "i < length as"
    then have "Suc i < length (a # as)" by simp
    then have "transient (http e (tick s + Suc i) (GetCards sid page psize))"
      using Cons.prems by blast
    then show "transient (http e (tick ?s2 + i) (GetCards sid page psize))" by simp
  qed
  then have ih: "fst (fetch_attempts e sid page psize as ?s2) = None \<and>
                 tick (snd (fetch_attempts e sid page psize as ?s2)) = tick ?s2 + length as"
    by (rule Cons.IH)
  have step: "fetch_attempts e sid page psize (a # as) s = fetch_attempts e sid page psize as ?s2"
    using t0
    by (cases "http e (tick s) (GetCards sid page psize)")
       (auto simp: transient_def http_get_def split: option.splits json.splits)
  show ?case
    unfolding step using ih by simp
qed

lemma fetch_sizes_transient:
  "\<forall>n psize. transient (http e n (GetCards sid page psize)) \<Longrightarrow>
   fst (fetch_sizes e sid page sizes s) = (JArr [], StatusRetry) \<and>
   tick (snd (fetch_sizes e sid page sizes s)) = tick s + length sizes * nat (MAX_RETRIES e)"
proof (induction sizes arbitrary: s)
  case Nil
  then show ?case by simp
next
  case (Cons p ps)
  have a: "fst (fetch_attempts e sid page p [1..MAX_RETRIES e] s) = None \<and>
           tick (snd (fetch_attempts e sid page p [1..MAX_RETRIES e] s))
             = tick s + length [1..MAX_RETRIES e]"
    using Cons.prems by (intro fetch_attempts_transient) simp
  obtain s1 where h: "fetch_attempts e sid page p [1..MAX_RETRIES e] s = (None, s1)"
    using a by (cases "fetch_attempts e sid page p [1..MAX_RETRIES e] s") auto
  with a have t: "tick s1 = tick s + nat (MAX_RETRIES e)" by simp
  show ?case
    using Cons.IH [OF Cons.prems, of s1] h t by simp
qed

text \<open>
  C5. When the answers to the first page size are 429 at every one of its
  \<^verbatim>\<open>MAX_RETRIES\<close> attempts and the next page size is answered at its first attempt with
  200 and a dict, the fetcher returns the \<^verbatim>\<open>data\<close> of that answer with the outcome ok.
  When every answer to the listing call is a transient failure, the fetcher makes
  \<^verbatim>\<open>MAX_RETRIES\<close> requests at each page size and returns the empty list with the outcome
  retry.
\<close>

theorem fetch_cards_page_size_fallback:
  "(PAGE_SIZES_TRY e = p1 # p2 # rest \<and> 1 \<le> MAX_RETRIES e \<and>
    (\<forall>i < nat (MAX_RETRIES e). \<exists>b. http e (tick s + i) (GetCards sid page p1) = Response 429 b) \<and>
    http e (tick s + nat (MAX_RETRIES e)) (GetCards sid page p2) = Response 200 (Some (JObj kvs))
    \<longrightarrow> fst (fetch_cards_page e sid page s) = (dict_get_default kvs ''data'' (JArr []), StatusOk)) \<and>
   ((\<forall>n psize. transient (http e n (GetCards sid page psize)))
    \<longrightarrow> fst (fetch_cards_page e sid page s) = (JArr [], StatusRetry) \<and>
        tick (snd (fetch_cards_page e sid page s))
          = tick s + length (PAGE_SIZES_TRY e) * nat (MAX_RETRIES e))"
proof (intro conjI impI)
  assume h: "PAGE_SIZES_TRY e = p1 # p2 # rest \<and> 1 \<le> MAX_RETRIES e \<and>
    (\<forall>i < nat (MAX_RETRIES e). \<exists>b. http e (tick s + i) (GetCards sid page p1) = Response 429 b) \<and>
    http e (tick s + nat (MAX_RETRIES e)) (GetCards sid page p2) = Response 200 (Some (JObj kvs))"
  have "\<forall>i < length [1..MAX_RETRIES e].
          transient (http e (tick s + i) (GetCards sid page p1))"
  proof (intro allI impI)
    fix i assume "i < length [1..MAX_RETRIES e]"
    then have "i < nat (MAX_RETRIES e)" by simp
    with h obtain b where "http e (tick s + i) (GetCards sid page p1) = Response 429 b"
      by blast
    then show "transient (http e (tick s + i) (GetCards sid page p1))"
      by (simp add: transient_def)
  qed
  then have a: "fst (fetch_attempts e sid page p1 [1..MAX_RETRIES e] s) = None \<and>
           tick (snd (fetch_attempts e sid page p1 [1..MAX_RETRIES e] s))
             = tick s + length [1..MAX_RETRIES e]"
    by (rule fetch_attempts_transient)
  obtain s1 where s1: "fetch_attempts e sid page p1 [1..MAX_RETRIES e] s = (None, s1)"
    using a by (cases "fetch_attempts e sid page p1 [1..MAX_RETRIES e] s") auto
  with a have t: "tick s1 = tick s + nat (MAX_RETRIES e)" by simp
  have u: "[1..MAX_RETRIES e] = 1 # [2..MAX_RETRIES e]"
    using h by (simp add: upto_rec1)
  have "fst (fetch_attempts e sid page p2 (1 # [2..MAX_RETRIES e]) s1)
          = Some (dict_get_default kvs ''data'' (JArr []), StatusOk)"
    using h t by (simp add: http_get_def)
  then have "fst (fetch_sizes e sid page (p2 # rest) s1)
          = (dict_get_default kvs ''data'' (JArr []), StatusOk)"
    by (cases "fetch_attempts e sid page p2 (1 # [2..MAX_RETRIES e]) s1") (simp add: u)
  with s1 h show "fst (fetch_cards_page e sid page s)
          = (dict_get_default kvs ''data'' (JArr []), StatusOk)"
    by (simp add: fetch_cards_page_def)
next
  assume "\<forall>n psize. transient (http e n (GetCards sid page psize))"
  then show "fst (fetch_cards_page e sid page s) = (JArr [], StatusRetry)"
    using fetch_sizes_transient [of e sid page] by (simp add: fetch_cards_page_def)
next
  assume "\<forall>n psize. transient (http e n (GetCards sid page psize))"
  then show "tick (snd (fetch_cards_page e sid page s))
          = tick s + length (PAGE_SIZES_TRY e) * nat (MAX_RETRIES e)"
    using fetch_sizes_transient [of e sid page] by (simp add: fetch_cards_page_def)
qed

theorem fetch_cards_page_size_fallback_witness:
  "fst (fetch_cards_page
          (run_env [''base1''] (upstream_size_100_limited (JArr [JObj sample_card])) db_up)
          ''base1'' 1 s0) = (JArr [JObj sample_card], StatusOk) \<and>
   fst (fetch_cards_page (run_env [''base1''] upstream_limited db_up) ''base1'' 1 s0)
     = (JArr [], StatusRetry) \<and>
   tick (snd (fetch_cards_page (run_env [''base1''] upstream_limited db_up) ''base1'' 1 s0)) = 12"
  using fetch_cards_page_size_fallback
          [of "run_env [''base1''] (upstream_size_100_limited (JArr [JObj sample_card])) db_up"
              100 50 "[25]" s0 "''base1''" 1 "[(''data'', JArr [JObj sample_card])]"]
        fetch_cards_page_size_fallback
          [of "run_env [''base1''] upstream_limited db_up" 100 50 "[25]" s0 "''base1''" 1 "[]"]
  by (simp add: run_env_def upstream_size_100_limited_def upstream_limited_def s0_def
        init_state_def transient_def dict_get_default_def)

subsection \<open>The run orchestrator\<close>

lemma page_loop_break: "page_step e sid page s = Inl res \<Longrightarrow> page_loop e sid page s = Some res"
  by (subst page_loop.simps) simp

lemma page_loop_continue:
  "page_step e sid page s = Inr s' \<Longrightarrow> page_loop e sid page s = page_loop e sid (page + 1) s'"
  by (subst page_loop.simps) simp

lemma update_progress_ok:
  "\<not> db_raises e (tick s) (UpsertProgress sid page dn) \<Longrightarrow>
   update_progress e sid page dn s =
     (None, s\<lparr>tick := tick s + 1,
              trace := trace s @ [DbCall (UpsertProgress sid page dn) False],
              price_run_progress := (price_run_progress s)
                (sid \<mapsto> patch_row (price_run_progress s sid) page dn)\<rparr>)"
  by (simp add: update_progress_def db_execute_def)




lemma page_loop_ok_empty:
  "fetch_cards_page e sid page s = ((c, StatusOk), s1) \<Longrightarrow> \<not> truthy c \<Longrightarrow>
   page_loop e sid page s =
     Some (update_progress e sid (Some (page - 1)) (Some True)
             (s1\<lparr>sets_done := sets_done s1 @ [sid]\<rparr>))"
  by (rule page_loop_break) (simp add: page_step_def)

lemma fetch_result_frame:
  "fetch_cards_page e sid page s = (r, s1) \<Longrightarrow> same_store s s1"
  using fetch_cards_page_frame [of s e sid page] by simp

text \<open>
  C6. When the fetch of page \<open>p\<close> of a set returns the outcome ok with an empty list (or
  any value that Python takes for false), the loop of the set ends there: the set is
  added to the sets done and the ledger is patched with \<open>done = true\<close> and
  \<open>last_page_done = p - 1\<close>; when the storage call does not raise, the set's ledger entry
  holds these two values and the set is in neither of the other two lists.
\<close>

theorem page_loop_end_of_group:
  assumes "fetch_cards_page e sid page s = ((cards_page, StatusOk), s1)"
    and "\<not> truthy cards_page"
  shows "page_loop e sid page s =
           Some (update_progress e sid (Some (page - 1)) (Some True)
                   (s1\<lparr>sets_done := sets_done s1 @ [sid]\<rparr>)) \<and>
         (\<not> db_raises e (tick s1) (UpsertProgress sid (Some (page - 1)) (Some True)) \<longrightarrow>
            (\<exists>s'. page_loop e sid page s = Some (None, s') \<and>
                  price_run_progress s' sid =
                    Some \<lparr>last_page_done = Some (page - 1), is_done = Some True\<rparr> \<and>
                  sets_done s' = sets_done s @ [sid] \<and>
                  sets_skipped s' = sets_skipped s \<and> sets_retry s' = sets_retry s))"
proof (intro conjI impI)
  show l: "page_loop e sid page s =
           Some (update_progress e sid (Some (page - 1)) (Some True)
                   (s1\<lparr>sets_done := sets_done s1 @ [sid]\<rparr>))"
    using assms by (rule page_loop_ok_empty)
  assume "\<not> db_raises e (tick s1) (UpsertProgress sid (Some (page - 1)) (Some True))"
  moreover have "same_store s s1"
    using assms(1) by (rule fetch_result_frame)
  ultimately show "\<exists>s'. page_loop e sid page s = Some (None, s') \<and>
                  price_run_progress s' sid =
                    Some \<lparr>last_page_done = Some (page - 1), is_done = Some True\<rparr> \<and>
                  sets_done s' = sets_done s @ [sid] \<and>
                  sets_skipped s' = sets_skipped s \<and> sets_retry s' = sets_retry s"
    by (simp add: l update_progress_ok patch_row_def same_store_def)
qed

theorem page_loop_end_of_group_witness:
  "fetch_cards_page (run_env [''base1''] upstream_empty_page db_up) ''base1'' 3 s0 =
     ((JArr [], StatusOk), s0\<lparr>tick := 1, trace := [HttpGet (GetCards ''base1'' 3 100)]\<rparr>) \<and>
   (\<exists>s'. page_loop (run_env [''base1''] upstream_empty_page db_up) ''base1'' 3 s0
            = Some (None, s') \<and>
         price_run_progress s' ''base1'' = Some \<lparr>last_page_done = Some 2, is_done = Some True\<rparr> \<and>
         sets_done s' = [''base1''] \<and> sets_skipped s' = [] \<and> sets_retry s' = [])"
proof -
  let ?e = "run_env [''base1''] upstream_empty_page db_up"
  let ?s1 = "s0\<lparr>tick := 1, trace := [HttpGet (GetCards ''base1'' 3 100)]\<rparr>"
  have f: "fetch_cards_page ?e ''base1'' 3 s0 = ((JArr [], StatusOk), ?s1)"
    by (simp add: fetch_cards_page_def run_env_def upstream_empty_page_def upto_rec1
          http_get_def s0_def init_state_def dict_get_default_def)
  have t: "\<not> truthy (JArr [])" by simp
  have d: "\<not> db_raises ?e (tick ?s1) (UpsertProgress ''base1'' (Some (3 - 1)) (Some True))"
    by (simp add: run_env_def db_up_def)
  have "\<exists>s'. page_loop ?e ''base1'' 3 s0 = Some (None, s') \<and>
          price_run_progress s' ''base1'' =
            Some \<lparr>last_page_done = Some (3 - 1), is_done = Some True\<rparr> \<and>
          sets_done s' = sets_done s0 @ [''base1''] \<and>
          sets_skipped s' = sets_skipped s0 \<and> sets_retry s' = sets_retry s0"
    using page_loop_end_of_group [OF f t] d by blast
  then have "\<exists>s'. page_loop ?e ''base1'' 3 s0 = Some (None, s') \<and>
          price_run_progress s' ''base1'' =
            Some \<lparr>last_page_done = Some 2, is_done = Some True\<rparr> \<and>
          sets_done s' = [''base1''] \<and> sets_skipped s' = [] \<and> sets_retry s' = []"
    by (simp add: s0_def init_state_def)
  with f show ?thesis by blast
qed







lemma upto_1_4: "[1..4] = [1, 2, 3, 4::int]"
  by (simp add: upto.simps)





subsection \<open>What a run leaves of the ledger entries of other sets\<close>

lemma ledger_db_execute [simp]:
  "price_run_progress (snd (db_execute e opr s)) = price_run_progress s"
  by (simp add: db_execute_def)

lemma ledger_update_progress:
  "sid \<noteq> sid' \<Longrightarrow>
   price_run_progress (snd (update_progress e sid' page dn s)) sid = price_run_progress s sid"
  by (simp add: update_progress_def db_execute_def)

lemma ledger_cards_loop:
  "price_run_progress (snd (cards_loop today cs acc s)) = price_run_progress s"
  by (induction cs arbitrary: acc s) (auto simp: Let_def split: sum.splits)

lemma ledger_build_batch:
  "price_run_progress (snd (build_batch e c s)) = price_run_progress s"
  by (simp add: build_batch_def ledger_cards_loop split: sum.splits)

lemma ledger_upsert_attempts:
  "price_run_progress (upsert_attempts e rows as s) = price_run_progress s"
  by (induction as arbitrary: s) (auto simp: Let_def db_execute_def sleep_def)

lemma ledger_upsert_prices:
  "price_run_progress (upsert_prices e rows s) = price_run_progress s"
  by (simp add: upsert_prices_def ledger_upsert_attempts)

lemma ledger_page_step:
  assumes "sid \<noteq> sid'"
  shows "case page_step e sid' page s of
           Inl res \<Rightarrow> price_run_progress (snd res) sid = price_run_progress s sid
         | Inr s' \<Rightarrow> price_run_progress s' sid = price_run_progress s sid"
proof -
  obtain c st s1 where f: "fetch_cards_page e sid' page s = ((c, st), s1)"
    by (metis prod.exhaust)
  then have "same_store s s1"
    by (rule fetch_result_frame)
  then have l1: "price_run_progress s1 = price_run_progress s"
    by (simp add: same_store_def)
  obtain rb s2 where b: "build_batch e c s1 = (rb, s2)"
    by (metis prod.exhaust)
  then have l2: "price_run_progress s2 = price_run_progress s"
    using ledger_build_batch [of e c s1] l1 by simp
  show ?thesis
  proof (cases rb)
    case (Inl err)
    with f b l1 l2 assms show ?thesis
      by (simp add: page_step_def ledger_update_progress)
  next
    case (Inr batch_rows)
    let ?s4 = "(upsert_prices e batch_rows s2)
                 \<lparr>total_rows := total_rows (upsert_prices e batch_rows s2)
                                  + int (length batch_rows)\<rparr>"
    have l4: "price_run_progress ?s4 = price_run_progress s"
      using l2 by (simp add: ledger_upsert_prices)
    obtain ru s5 where u: "update_progress e sid' (Some page) (Some False) ?s4 = (ru, s5)"
      by (metis prod.exhaust)
    then have l5: "price_run_progress s5 sid = price_run_progress s sid"
      using ledger_update_progress [OF assms, of e "Some page" "Some False" ?s4] l4 by simp
    from f b Inr u l1 l5 assms show ?thesis
      by (cases ru) (simp_all add: page_step_def ledger_update_progress Let_def sleep_def)
  qed
qed

lemma ledger_page_loop_imp:
  assumes a: "page_loop e sid' page s = Some res"
  shows "sid \<noteq> sid' \<longrightarrow> price_run_progress (snd res) sid = price_run_progress s sid"
proof (rule page_loop.raw_induct
         [where P = "\<lambda>e x p st y. sid \<noteq> x \<longrightarrow>
                       price_run_progress (snd y) sid = price_run_progress st sid", OF _ a])
  fix pl :: "env \<Rightarrow> string \<Rightarrow> int \<Rightarrow> state \<Rightarrow> (error option \<times> state) option"
    and e' x p st y
  assume ih: "\<And>e' x p st y. pl e' x p st = Some y \<Longrightarrow>
                sid \<noteq> x \<longrightarrow> price_run_progress (snd y) sid = price_run_progress st sid"
    and eq: "(case page_step e' x p st of Inl r \<Rightarrow> Some r | Inr st' \<Rightarrow> pl e' x (p + 1) st')
               = Some y"
  show "sid \<noteq> x \<longrightarrow> price_run_progress (snd y) sid = price_run_progress st sid"
  proof
    assume ne: "sid \<noteq> x"
    show "price_run_progress (snd y) sid = price_run_progress st sid"
    proof (cases "page_step e' x p st")
      case (Inl r)
      with eq have "y = r" by simp
      with Inl ledger_page_step [OF ne, where e = e' and page = p and s = st]
      show ?thesis by simp
    next
      case (Inr st')
      with eq have "pl e' x (p + 1) st' = Some y" by simp
      then have "price_run_progress (snd y) sid = price_run_progress st' sid"
        using ih ne by blast
      with Inr ledger_page_step [OF ne, where e = e' and page = p and s = st]
      show ?thesis by simp
    qed
  qed
qed

lemma ledger_page_loop:
  assumes "page_loop e sid' page s = Some res" and "sid \<noteq> sid'"
  shows "price_run_progress (snd res) sid = price_run_progress s sid"
  using ledger_page_loop_imp [OF assms(1)] assms(2) by blast

lemma get_progress_existing:
  assumes "price_run_progress s sid = Some row"
  shows "get_progress e sid s =
           (if db_raises e (tick s) (SelectProgress sid) then Inl DbError else Inr row,
            snd (db_execute e (SelectProgress sid) s))"
  using assms by (simp add: get_progress_def db_execute_def)

lemma ledger_get_progress:
  assumes "price_run_progress s sid = Some row"
  shows "price_run_progress (snd (get_progress e sid' s)) sid = Some row"
  using assms
  by (cases "sid = sid'")
     (auto simp: get_progress_def db_execute_def split: option.splits)

lemma sets_loop_keeps_done:
  assumes "price_run_progress s sid = Some row" and "is_done row = Some True"
    and "sets_loop e sids s = Some res"
  shows "price_run_progress (snd res) sid = Some row"
  using assms
proof (induction sids arbitrary: s)
  case Nil
  then show ?case by auto
next
  case (Cons sid' sids)
  obtain rg s1 where g: "get_progress e sid' s = (rg, s1)"
    by (metis prod.exhaust)
  then have l1: "price_run_progress s1 sid = Some row"
    using ledger_get_progress [OF Cons.prems(1), of e sid'] by simp
  show ?case
  proof (cases rg)
    case (Inl err)
    with g Cons.prems(3) l1 show ?thesis by auto
  next
    case (Inr prog)
    show ?thesis
    proof (cases "is_done prog = Some True")
      case True
      with g Inr Cons.prems(3) have "sets_loop e sids s1 = Some res" by simp
      with l1 Cons.prems(2) show ?thesis by (rule Cons.IH)
    next
      case False
      have ne: "sid \<noteq> sid'"
      proof
        assume "sid = sid'"
        with g Inr Cons.prems(1) have "prog = row"
          by (auto simp: get_progress_existing split: if_splits)
        with False Cons.prems(2) show False by simp
      qed
      show ?thesis
      proof (cases "page_loop e sid' (resume_page prog) s1")
        case None
        with g Inr False Cons.prems(3) show ?thesis by simp
      next
        case (Some r2)
        then have l2: "price_run_progress (snd r2) sid = Some row"
          using ledger_page_loop [OF Some ne] l1 by simp
        show ?thesis
        proof (cases "fst r2")
          case None
          with g Inr False Some Cons.prems(3) have "sets_loop e sids (snd r2) = Some res"
            by (cases r2) simp
          with l2 Cons.prems(2) show ?thesis by (rule Cons.IH)
        next
          case (Some err)
          with g Inr False \<open>page_loop e sid' (resume_page prog) s1 = Some r2\<close> Cons.prems(3)
          have "res = r2" by (cases r2) auto
          with l2 show ?thesis by simp
        qed
      qed
    qed
  qed
qed

lemma sets_loop_append:
  "sets_loop e (xs @ ys) s =
     (case sets_loop e xs s of
        None \<Rightarrow> None
      | Some (Some err, s1) \<Rightarrow> Some (Some err, s1)
      | Some (None, s1) \<Rightarrow> sets_loop e ys s1)"
  by (induction xs arbitrary: s)
     (auto split: prod.splits sum.splits option.splits)

text \<open>
  C7. A set whose ledger entry of the run date is done when the run starts: wherever the
  set stands among the set ids, its turn in the run is the one read of its ledger entry
  and nothing else (no request, no upsert, no ledger write), after which the run goes on
  with the sets after it. A set whose entry is not done is paged from the page after
  \<open>last_page_done\<close>.
\<close>

theorem done_set_is_not_revisited:
  "(price_run_progress s sid = Some row \<and> is_done row = Some True \<longrightarrow>
      sets_loop e (before @ sid # after) s =
        (case sets_loop e before s of
           None \<Rightarrow> None
         | Some (Some err, s1) \<Rightarrow> Some (Some err, s1)
         | Some (None, s1) \<Rightarrow>
             (if db_raises e (tick s1) (SelectProgress sid)
              then Some (Some DbError,
                     s1\<lparr>tick := tick s1 + 1,
                        trace := trace s1 @ [DbCall (SelectProgress sid) True]\<rparr>)
              else sets_loop e after
                     (s1\<lparr>tick := tick s1 + 1,
                         trace := trace s1 @ [DbCall (SelectProgress sid) False]\<rparr>)))) \<and>
   (get_progress e sid2 t = (Inr prog, t1) \<and> is_done prog \<noteq> Some True \<and>
    last_page_done prog = Some n \<longrightarrow>
      sets_loop e (sid2 # rest) t =
        (case page_loop e sid2 (n + 1) t1 of
           None \<Rightarrow> None
         | Some (Some err, t2) \<Rightarrow> Some (Some err, t2)
         | Some (None, t2) \<Rightarrow> sets_loop e rest t2))"
proof (intro conjI impI)
  assume h: "price_run_progress s sid = Some row \<and> is_done row = Some True"
  show "sets_loop e (before @ sid # after) s =
        (case sets_loop e before s of
           None \<Rightarrow> None
         | Some (Some err, s1) \<Rightarrow> Some (Some err, s1)
         | Some (None, s1) \<Rightarrow>
             (if db_raises e (tick s1) (SelectProgress sid)
              then Some (Some DbError,
                     s1\<lparr>tick := tick s1 + 1,
                        trace := trace s1 @ [DbCall (SelectProgress sid) True]\<rparr>)
              else sets_loop e after
                     (s1\<lparr>tick := tick s1 + 1,
                         trace := trace s1 @ [DbCall (SelectProgress sid) False]\<rparr>)))"
  proof (cases "sets_loop e before s")
    case None
    then show ?thesis by (simp add: sets_loop_append)
  next
    case (Some res)
    obtain r s1 where res: "res = (r, s1)" by (cases res)
    have l: "price_run_progress s1 sid = Some row"
      using sets_loop_keeps_done [of s sid row e before res] h Some res by simp
    show ?thesis
    proof (cases r)
      case (Some err)
      with \<open>sets_loop e before s = Some res\<close> res show ?thesis
        by (simp add: sets_loop_append)
    next
      case None
      with \<open>sets_loop e before s = Some res\<close> res l h show ?thesis
        by (simp add: sets_loop_append get_progress_existing db_execute_def)
    qed
  qed
next
  assume h: "get_progress e sid2 t = (Inr prog, t1) \<and> is_done prog \<noteq> Some True \<and>
    last_page_done prog = Some n"
  then have "resume_page prog = n + 1"
    by (simp add: resume_page_def)
  with h show "sets_loop e (sid2 # rest) t =
        (case page_loop e sid2 (n + 1) t1 of
           None \<Rightarrow> None
         | Some (Some err, t2) \<Rightarrow> Some (Some err, t2)
         | Some (None, t2) \<Rightarrow> sets_loop e rest t2)"
    by simp
qed

theorem done_set_is_not_revisited_witness:
  "(case sets_loop (run_env [''base1'', ''base2''] upstream_empty_page db_up)
           [''base1'', ''base2''] (init_state ledger_base1_done Map.empty) of
      Some (None, s) \<Rightarrow>
        trace s =
          [DbCall (SelectProgress ''base1'') False, DbCall (SelectProgress ''base2'') False,
           HttpGet (GetCards ''base2'' 3 100),
           DbCall (UpsertProgress ''base2'' (Some 2) (Some True)) False] \<and>
        price_run_progress s ''base1'' = Some \<lparr>last_page_done = Some 3, is_done = Some True\<rparr> \<and>
        price_run_progress s ''base2'' = Some \<lparr>last_page_done = Some 2, is_done = Some True\<rparr> \<and>
        sets_done s = [''base2'']
    | _ \<Rightarrow> False)"
proof -
  let ?e = "run_env [''base1'', ''base2''] upstream_empty_page db_up"
  let ?s = "init_state ledger_base1_done Map.empty"
  let ?s1 = "?s\<lparr>tick := tick ?s + 1,
                trace := trace ?s @ [DbCall (SelectProgress ''base1'') False]\<rparr>"
  let ?t1 = "?s1\<lparr>tick := 2,
                 trace := [DbCall (SelectProgress ''base1'') False,
                           DbCall (SelectProgress ''base2'') False]\<rparr>"
  let ?prog = "\<lparr>last_page_done = Some 2, is_done = Some False\<rparr>"
  have a: "price_run_progress ?s ''base1'' = Some \<lparr>last_page_done = Some 3, is_done = Some True\<rparr>
           \<and> is_done \<lparr>last_page_done = Some 3, is_done = Some True\<rparr> = Some True"
    by (simp add: init_state_def ledger_base1_done_def)
  have b: "get_progress ?e ''base2'' ?s1 = (Inr ?prog, ?t1) \<and> is_done ?prog \<noteq> Some True \<and>
           last_page_done ?prog = Some 2"
    by (simp add: get_progress_def db_execute_def run_env_def db_up_def init_state_def
          ledger_base1_done_def)
  have p1: "sets_loop ?e ([] @ ''base1'' # [''base2'']) ?s = sets_loop ?e [''base2''] ?s1"
    using done_set_is_not_revisited
            [of ?s "''base1''" "\<lparr>last_page_done = Some 3, is_done = Some True\<rparr>" ?e "[]"
                "[''base2'']"] a
    by (simp add: run_env_def db_up_def)
  have p2: "sets_loop ?e [''base2''] ?s1 =
        (case page_loop ?e ''base2'' (2 + 1) ?t1 of
           None \<Rightarrow> None
         | Some (Some err, t2) \<Rightarrow> Some (Some err, t2)
         | Some (None, t2) \<Rightarrow> sets_loop ?e [] t2)"
    using done_set_is_not_revisited
            [where e = ?e and ?sid2.0 = "''base2''" and t = ?s1 and prog = ?prog and ?t1.0 = ?t1
               and n = 2 and rest = "[]"] b
    by blast
  have p3: "page_loop ?e ''base2'' (2 + 1) ?t1 =
              Some (None,
                ?t1\<lparr>tick := 4,
                    trace := [DbCall (SelectProgress ''base1'') False,
                              DbCall (SelectProgress ''base2'') False,
                              HttpGet (GetCards ''base2'' 3 100),
                              DbCall (UpsertProgress ''base2'' (Some 2) (Some True)) False],
                    price_run_progress := (price_run_progress ?t1)
                      (''base2'' \<mapsto> \<lparr>last_page_done = Some 2, is_done = Some True\<rparr>),
                    sets_done := [''base2'']\<rparr>)"
    by (simp add: page_loop.simps page_step_def fetch_cards_page_def upto_1_4 http_get_def
          update_progress_def db_execute_def patch_row_def dict_get_default_def
          run_env_def upstream_empty_page_def db_up_def init_state_def ledger_base1_done_def)
  have "sets_loop ?e [''base1'', ''base2''] ?s = sets_loop ?e ([] @ ''base1'' # [''base2'']) ?s"
    by simp
  also note p1
  also note p2
  finally have eq: "sets_loop ?e [''base1'', ''base2''] ?s =
        (case page_loop ?e ''base2'' (2 + 1) ?t1 of
           None \<Rightarrow> None
         | Some (Some err, t2) \<Rightarrow> Some (Some err, t2)
         | Some (None, t2) \<Rightarrow> sets_loop ?e [] t2)" .
  show ?thesis
    by (subst eq, subst p3) (simp add: init_state_def ledger_base1_done_def)
qed

subsection \<open>The upsert sink\<close>










end
